theory Spec2Isabelle
  imports Main "HOL-Library.Sublist"
begin

unbundle bit_operations_syntax

section \<open>Platform model\<close>

text \<open>
  The program is C++ (\<^verbatim>\<open>src/main.cpp\<close>). A \<^verbatim>\<open>std::string\<close> is a sequence of bytes and is
  modelled by \<^typ>\<open>string\<close> (a list of 8-bit \<^typ>\<open>char\<close>). The integer model is the LP64 one of
  x86-64 Linux: \<^verbatim>\<open>long\<close>, \<^verbatim>\<open>unsigned long\<close>, \<^verbatim>\<open>size_t\<close> and \<^verbatim>\<open>time_t\<close> have 64 bits,
  \<^verbatim>\<open>int\<close> has 32 bits and plain \<^verbatim>\<open>char\<close> is signed. An \<^verbatim>\<open>unsigned long\<close> is a natural number with the reduction modulo
  \<open>2 ^ 64\<close> written out; a \<^verbatim>\<open>time_t\<close> is an integer, and \<open>is_long\<close> says that it is one a
  \<^verbatim>\<open>long\<close> can hold. The character classes are those of the "C" locale, which the program
  never changes.

  Whatever ends the process abnormally (a null pointer dereference, a remainder by zero, an
  exception nobody catches) is a value of type \<open>error\<close>; an operation that can end this way
  returns \<open>error + result\<close>.
\<close>

type_synonym time_t = int

datatype error = NullDeref | DivByZero | InvalidArgument | OutOfRange

definition LONG_MAX :: int where
  "LONG_MAX = 2 ^ 63 - 1"

definition LONG_MIN :: int where
  "LONG_MIN = - (2 ^ 63)"

definition is_long :: "int \<Rightarrow> bool" where
  "is_long v = (LONG_MIN \<le> v \<and> v \<le> LONG_MAX)"

definition ULONG_SIZE :: nat where
  "ULONG_SIZE = 2 ^ 64"

text \<open>
  The conversion of a \<^verbatim>\<open>size_t\<close> to \<^verbatim>\<open>int\<close>, as in \<^verbatim>\<open>int length = password.length()\<close>:
  the value is reduced modulo \<open>2 ^ 32\<close> into the range of \<^verbatim>\<open>int\<close>, so a size from \<open>2 ^ 31\<close> on
  does not keep its value.
\<close>

definition size_to_int :: "nat \<Rightarrow> int" where
  "size_to_int n = (int n + 2 ^ 31) mod 2 ^ 32 - 2 ^ 31"

subsection \<open>\<^verbatim>\<open><cctype>\<close> in the "C" locale\<close>

definition isupper :: "char \<Rightarrow> bool" where
  "isupper c = (65 \<le> (of_char c :: nat) \<and> (of_char c :: nat) \<le> 90)"

definition islower :: "char \<Rightarrow> bool" where
  "islower c = (97 \<le> (of_char c :: nat) \<and> (of_char c :: nat) \<le> 122)"

definition isdigit :: "char \<Rightarrow> bool" where
  "isdigit c = (48 \<le> (of_char c :: nat) \<and> (of_char c :: nat) \<le> 57)"

definition ispunct :: "char \<Rightarrow> bool" where
  "ispunct c = (let n = (of_char c :: nat) in
     (33 \<le> n \<and> n \<le> 47) \<or> (58 \<le> n \<and> n \<le> 64) \<or> (91 \<le> n \<and> n \<le> 96) \<or> (123 \<le> n \<and> n \<le> 126))"

definition isspace :: "char \<Rightarrow> bool" where
  "isspace c = (let n = (of_char c :: nat) in (9 \<le> n \<and> n \<le> 13) \<or> n = 32)"

definition tolower :: "char \<Rightarrow> char" where
  "tolower c = (if isupper c then char_of ((of_char c :: nat) + 32) else c)"

subsection \<open>Decimal output: \<^verbatim>\<open>std::to_string\<close> and \<^verbatim>\<open>operator<<\<close> on integers\<close>

fun to_string_unsigned :: "nat \<Rightarrow> string" where
  "to_string_unsigned n =
     (if n < 10 then [char_of (48 + n)]
      else to_string_unsigned (n div 10) @ [char_of (48 + n mod 10)])"

declare to_string_unsigned.simps [simp del]

definition to_string :: "int \<Rightarrow> string" where
  "to_string i = (if i < 0 then CHR ''-'' # to_string_unsigned (nat (- i))
                  else to_string_unsigned (nat i))"

subsection \<open>\<^verbatim>\<open>strtol\<close> and \<^verbatim>\<open>std::stol\<close>\<close>

text \<open>
  \<open>digit_value\<close> is the value of a character as a digit; 36 stands for "no digit in any base".
  \<open>strtol s base\<close> returns whether a conversion was performed, the value (clamped to the range
  of \<^verbatim>\<open>long\<close>) and whether the value was in range. It reads the C string of \<open>s\<close>, which ends
  at the first NUL byte: white space, an optional sign, for base 16 an optional \<^verbatim>\<open>0x\<close> that
  a hexadecimal digit follows, then the longest run of digits of the base.
\<close>

definition digit_value :: "char \<Rightarrow> nat" where
  "digit_value c =
     (if isdigit c then (of_char c :: nat) - 48
      else if islower c then (of_char c :: nat) - 87
      else if isupper c then (of_char c :: nat) - 55
      else 36)"

definition in_base :: "nat \<Rightarrow> char \<Rightarrow> bool" where
  "in_base base c = (digit_value c < base)"

definition c_str :: "string \<Rightarrow> string" where
  "c_str s = takeWhile (\<lambda>c. c \<noteq> char_of (0 :: nat)) s"

definition has_hex_prefix :: "string \<Rightarrow> bool" where
  "has_hex_prefix s =
     (case s of
        z # x # d # _ \<Rightarrow> z = CHR ''0'' \<and> (x = CHR ''x'' \<or> x = CHR ''X'') \<and> in_base 16 d
      | _ \<Rightarrow> False)"

definition strtol :: "string \<Rightarrow> nat \<Rightarrow> bool \<times> int \<times> bool" where
  "strtol s base =
     (let s1 = dropWhile isspace (c_str s);
          neg = (case s1 of [] \<Rightarrow> False | c # _ \<Rightarrow> c = CHR ''-'');
          s2 = (case s1 of [] \<Rightarrow> [] | c # cs \<Rightarrow> if c = CHR ''-'' \<or> c = CHR ''+'' then cs else s1);
          s3 = (if base = 16 \<and> has_hex_prefix s2 then drop 2 s2 else s2);
          ds = takeWhile (in_base base) s3;
          mag = foldl (\<lambda>a c. a * int base + int (digit_value c)) 0 ds;
          v = (if neg then - mag else mag)
      in (ds \<noteq> [], max LONG_MIN (min LONG_MAX v), is_long v))"

definition stol :: "string \<Rightarrow> error + int" where
  "stol s =
     (case strtol s 10 of
        (conv, v, ok) \<Rightarrow>
          if \<not> conv then Inl InvalidArgument
          else if \<not> ok then Inl OutOfRange
          else Inr v)"

section \<open>SecurityManager\<close>

record SecurityManager =
  key :: string

definition xor_char :: "char \<Rightarrow> char \<Rightarrow> char" where
  "xor_char a b = char_of ((of_char a :: nat) XOR (of_char b :: nat))"

text \<open>The loop shared by \<open>xorEncrypt\<close> and \<open>xorDecrypt\<close>: byte \<open>i\<close> meets key byte \<open>i % key.length()\<close>.\<close>

definition xor_loop :: "string \<Rightarrow> string \<Rightarrow> string" where
  "xor_loop data k = map (\<lambda>i. xor_char (data ! i) (k ! (i mod length k))) [0..<length data]"

definition hex_char :: "nat \<Rightarrow> char" where
  "hex_char d = ''0123456789abcdef'' ! d"

fun hex_digits :: "nat \<Rightarrow> string" where
  "hex_digits n =
     (if n < 16 then [hex_char n] else hex_digits (n div 16) @ [hex_char (n mod 16)])"

declare hex_digits.simps [simp del]

definition setw_fill :: "nat \<Rightarrow> char \<Rightarrow> string \<Rightarrow> string" where
  "setw_fill w f s = replicate (w - length s) f @ s"

definition toHex :: "string \<Rightarrow> string" where
  "toHex data = concat (map (\<lambda>c. setw_fill 2 (CHR ''0'') (hex_digits (of_char c))) data)"

definition long_to_char :: "int \<Rightarrow> char" where
  "long_to_char v = char_of (nat (v mod 256))"

fun fromHex :: "string \<Rightarrow> string" where
  "fromHex [] = []"
| "fromHex [a] = [long_to_char (fst (snd (strtol [a] 16)))]"
| "fromHex (a # b # rest) = long_to_char (fst (snd (strtol [a, b] 16))) # fromHex rest"

text \<open>
  With an empty key \<open>i % key.length()\<close> is a remainder by zero as soon as the loop body runs.
\<close>

definition xorEncrypt :: "string \<Rightarrow> string \<Rightarrow> error + string" where
  "xorEncrypt data k =
     (if data \<noteq> [] \<and> k = [] then Inl DivByZero else Inr (toHex (xor_loop data k)))"

definition xorDecrypt :: "string \<Rightarrow> string \<Rightarrow> error + string" where
  "xorDecrypt hexData k =
     (let data = fromHex hexData
      in if data \<noteq> [] \<and> k = [] then Inl DivByZero else Inr (xor_loop data k))"

text \<open>
  \<open>hash + c\<close> converts the signed \<^verbatim>\<open>char\<close> to \<^verbatim>\<open>unsigned long\<close>: a byte from 128 on is
  a negative number and wraps around.
\<close>

definition char_to_ulong :: "char \<Rightarrow> nat" where
  "char_to_ulong c =
     (if (of_char c :: nat) < 128 then of_char c else ULONG_SIZE - 256 + of_char c)"

definition hash_step :: "nat \<Rightarrow> char \<Rightarrow> nat" where
  "hash_step hash c =
     (((hash * 2 ^ 5) mod ULONG_SIZE + hash) mod ULONG_SIZE + char_to_ulong c) mod ULONG_SIZE"

definition hashPassword :: "string \<Rightarrow> string" where
  "hashPassword password = to_string_unsigned (foldl hash_step 5381 password)"

definition SecurityManager_new :: "string \<Rightarrow> SecurityManager" where
  "SecurityManager_new masterPassword = \<lparr>key = hashPassword masterPassword\<rparr>"

definition encrypt :: "SecurityManager \<Rightarrow> string \<Rightarrow> error + string" where
  "encrypt sm data = xorEncrypt data (key sm)"

definition decrypt :: "SecurityManager \<Rightarrow> string \<Rightarrow> error + string" where
  "decrypt sm encryptedData = xorDecrypt encryptedData (key sm)"

section \<open>PasswordAnalyzer\<close>

text \<open>
  Of \<^verbatim>\<open>PasswordStrength\<close> the model keeps \<open>score\<close> and \<open>strength\<close>. The \<open>entropy\<close> field is
  a floating-point logarithm and \<open>feedback\<close> a list of messages for the display; nothing that is
  stated below reads them.
\<close>

record PasswordStrength =
  score :: int
  strength :: string

text \<open>The loop over the characters of the password, on the four flags.\<close>

fun check_types :: "bool \<times> bool \<times> bool \<times> bool \<Rightarrow> string \<Rightarrow> bool \<times> bool \<times> bool \<times> bool" where
  "check_types flags [] = flags"
| "check_types (hasUpper, hasLower, hasDigit, hasSpecial) (c # cs) =
     check_types
       (if isupper c then True else hasUpper,
        if islower c then True else hasLower,
        if isdigit c then True else hasDigit,
        if ispunct c then True else hasSpecial) cs"

definition analyzePassword :: "string \<Rightarrow> PasswordStrength" where
  "analyzePassword password =
     (let len = size_to_int (length password);
          (hasUpper, hasLower, hasDigit, hasSpecial) =
             check_types (False, False, False, False) password;
          s0 = (0 :: int);
          s1 = (if len \<ge> 8 then s0 + 20 else s0);
          s2 = (if len \<ge> 12 then s1 + 15 else s1);
          s3 = (if len \<ge> 16 then s2 + 15 else s2);
          s4 = (if hasUpper then s3 + 15 else s3);
          s5 = (if hasLower then s4 + 15 else s4);
          s6 = (if hasDigit then s5 + 10 else s5);
          s7 = (if hasSpecial then s6 + 10 else s6)
      in \<lparr>score = s7,
          strength =
            (if s7 < 40 then ''Weak''
             else if s7 < 60 then ''Fair''
             else if s7 < 75 then ''Good''
             else if s7 < 90 then ''Strong''
             else ''Very Strong'')\<rparr>)"

section \<open>PasswordEntry\<close>

text \<open>
  The fields \<^verbatim>\<open>id\<close> and \<^verbatim>\<open>notes\<close> are called \<open>id_entry\<close> and \<open>notes_entry\<close>: \<open>id\<close> is the
  identity function of HOL and \<^verbatim>\<open>notes\<close> a keyword of Isabelle.
\<close>

record PasswordEntry =
  id_entry :: string
  website :: string
  username :: string
  password :: string
  category :: string
  notes_entry :: string
  createdAt :: time_t
  lastModified :: time_t

section \<open>PassVault\<close>

text \<open>
  \<open>security\<close> is the pointer to the \<^verbatim>\<open>SecurityManager\<close>: \<open>None\<close> is \<^verbatim>\<open>nullptr\<close>.

  The vault file is a \<open>backing_file\<close>: its content, \<open>None\<close> while the file does not exist, and
  whether it can be opened for writing. An \<^verbatim>\<open>ifstream\<close> opens exactly when the file exists.

  Every call of \<^verbatim>\<open>time(0)\<close> is an argument of the operation that makes it, in the order of
  the calls. \<open>initialize\<close>, \<open>unlock\<close> and \<open>getHealthReport\<close> read the clock once, and their
  argument is \<open>now\<close>. In the operations that start with the auto-lock check, \<open>now\<close> is the time
  that \<open>checkAutoLock\<close> reads and \<open>tActivity\<close> the one that \<open>updateActivity\<close> reads; \<open>addEntry\<close>
  and \<open>updateEntry\<close> take one more for each further call (for the id, for \<open>createdAt\<close>, for
  \<open>lastModified\<close>). \<open>addEntry\<close> also takes the value \<open>r\<close> that \<^verbatim>\<open>rand()\<close> returns to it.
\<close>

record PassVault =
  vaultFile :: string
  security :: "SecurityManager option"
  entries :: "PasswordEntry list"
  masterPassword :: string
  isLocked :: bool
  lastActivity :: time_t
  autoLockMinutes :: int

record backing_file =
  content :: "string option"
  writable :: bool

definition bind_result :: "error + 'a \<Rightarrow> ('a \<Rightarrow> error + 'b) \<Rightarrow> error + 'b" where
  "bind_result r f = (case r of Inl e \<Rightarrow> Inl e | Inr x \<Rightarrow> f x)"

definition deref :: "SecurityManager option \<Rightarrow> error + SecurityManager" where
  "deref p = (case p of None \<Rightarrow> Inl NullDeref | Some sm \<Rightarrow> Inr sm)"

definition PassVault_new :: "string \<Rightarrow> time_t \<Rightarrow> PassVault" where
  "PassVault_new filename now =
     \<lparr>vaultFile = filename, security = None, entries = [], masterPassword = [],
      isLocked = True, lastActivity = now, autoLockMinutes = 10\<rparr>"

definition generateId :: "time_t \<Rightarrow> nat \<Rightarrow> string" where
  "generateId now r = to_string now @ to_string (int (r mod 10000))"

definition updateActivity :: "time_t \<Rightarrow> PassVault \<Rightarrow> PassVault" where
  "updateActivity now v = v\<lparr>lastActivity := now\<rparr>"

text \<open>
  \<^verbatim>\<open>difftime(now, lastActivity)\<close> is the difference of the two times in seconds, as a
  \<^verbatim>\<open>double\<close>; the model compares the integer difference.
\<close>

definition checkAutoLock :: "time_t \<Rightarrow> PassVault \<Rightarrow> bool \<times> PassVault" where
  "checkAutoLock now v =
     (if autoLockMinutes v > 0 \<and> now - lastActivity v > autoLockMinutes v * 60
      then (True, v\<lparr>isLocked := True\<rparr>)
      else (False, v))"

text \<open>The guard \<^verbatim>\<open>checkAutoLock() || isLocked\<close> that opens the gated operations.\<close>

definition locked_after_check :: "time_t \<Rightarrow> PassVault \<Rightarrow> bool \<times> PassVault" where
  "locked_after_check now v =
     (case checkAutoLock now v of (tripped, v') \<Rightarrow> (tripped \<or> isLocked v', v'))"

definition initialize :: "time_t \<Rightarrow> string \<Rightarrow> PassVault \<Rightarrow> bool \<times> PassVault" where
  "initialize now masterPass v =
     (True,
      updateActivity now
        (v\<lparr>masterPassword := masterPass,
           security := Some (SecurityManager_new masterPass),
           isLocked := False\<rparr>))"

definition lock :: "PassVault \<Rightarrow> PassVault" where
  "lock v = v\<lparr>isLocked := True\<rparr>"

definition unlock :: "time_t \<Rightarrow> string \<Rightarrow> PassVault \<Rightarrow> bool \<times> PassVault" where
  "unlock now masterPass v =
     (if masterPass = masterPassword v
      then (True, updateActivity now (v\<lparr>isLocked := False\<rparr>))
      else (False, v))"

subsection \<open>Persistence\<close>

definition newline :: char where
  "newline = CHR 0x0A"

definition entry_line :: "SecurityManager option \<Rightarrow> PasswordEntry \<Rightarrow> error + string" where
  "entry_line sec entry =
     bind_result (deref sec) (\<lambda>sm.
     bind_result (encrypt sm (id_entry entry)) (\<lambda>f1.
     bind_result (encrypt sm (website entry)) (\<lambda>f2.
     bind_result (encrypt sm (username entry)) (\<lambda>f3.
     bind_result (encrypt sm (password entry)) (\<lambda>f4.
     bind_result (encrypt sm (category entry)) (\<lambda>f5.
     bind_result (encrypt sm (notes_entry entry)) (\<lambda>f6.
     Inr (f1 @ ''|'' @ f2 @ ''|'' @ f3 @ ''|'' @ f4 @ ''|'' @ f5 @ ''|'' @ f6 @ ''|''
          @ to_string (createdAt entry) @ ''|'' @ to_string (lastModified entry)
          @ [newline]))))))))"

fun write_entries :: "SecurityManager option \<Rightarrow> PasswordEntry list \<Rightarrow> error + string" where
  "write_entries sec [] = Inr []"
| "write_entries sec (entry # rest) =
     bind_result (entry_line sec entry) (\<lambda>line.
     bind_result (write_entries sec rest) (\<lambda>more. Inr (line @ more)))"

definition saveToFile :: "PassVault \<Rightarrow> backing_file \<Rightarrow> error + (bool \<times> backing_file)" where
  "saveToFile v file =
     (if \<not> writable file then Inr (False, file)
      else bind_result (write_entries (security v) (entries v)) (\<lambda>data.
           Inr (True, file\<lparr>content := Some data\<rparr>)))"

text \<open>
  An input stream: the characters not yet read and the two state bits that \<^verbatim>\<open>getline\<close>
  sets. \<open>getline delim s str\<close> returns the new value of the string and the new stream. On a
  stream that is no longer good it sets \<open>failbit\<close> and leaves the string as it was; otherwise it
  stores the characters before the next delimiter, which it removes, or all the characters left,
  and then sets \<open>eofbit\<close>, and \<open>failbit\<close> too if there was none.
\<close>

record istream =
  buffer :: string
  eofbit :: bool
  failbit :: bool

definition open_stream :: "string \<Rightarrow> istream" where
  "open_stream s = \<lparr>buffer = s, eofbit = False, failbit = False\<rparr>"

definition getline :: "char \<Rightarrow> istream \<Rightarrow> string \<Rightarrow> string \<times> istream" where
  "getline delim s str =
     (if eofbit s \<or> failbit s then (str, s\<lparr>failbit := True\<rparr>)
      else (case dropWhile (\<lambda>c. c \<noteq> delim) (buffer s) of
              [] \<Rightarrow> (buffer s, \<lparr>buffer = [], eofbit = True, failbit = (buffer s = [])\<rparr>)
            | _ # rest \<Rightarrow>
                (takeWhile (\<lambda>c. c \<noteq> delim) (buffer s),
                 \<lparr>buffer = rest, eofbit = False, failbit = False\<rparr>)))"

text \<open>The lines that \<^verbatim>\<open>while(getline(file, line))\<close> passes to its body.\<close>

function read_lines :: "istream \<Rightarrow> string \<Rightarrow> string list" where
  "read_lines s line =
     (case getline newline s line of
        (line', s') \<Rightarrow> if failbit s' then [] else line' # read_lines s' line')"
  by pat_completeness auto
termination
  apply (relation "measure (\<lambda>(s, line). if eofbit s \<or> failbit s then 0 else Suc (length (buffer s)))")
   apply simp
  subgoal for s
    using length_dropWhile_le [of "\<lambda>c. c \<noteq> newline" "buffer s"]
    by (auto simp: getline_def split: if_splits list.splits)
  done

declare read_lines.simps [simp del]

text \<open>
  The body of the loop of \<open>loadFromFile\<close>: eight calls of \<^verbatim>\<open>getline(ss, temp, '|')\<close> on
  the stream of the line, with the same \<open>temp\<close>.
\<close>

definition parse_line :: "SecurityManager option \<Rightarrow> string \<Rightarrow> error + PasswordEntry" where
  "parse_line sec line =
     (let ss0 = open_stream line;
          (t1, ss1) = getline (CHR ''|'') ss0 [];
          (t2, ss2) = getline (CHR ''|'') ss1 t1;
          (t3, ss3) = getline (CHR ''|'') ss2 t2;
          (t4, ss4) = getline (CHR ''|'') ss3 t3;
          (t5, ss5) = getline (CHR ''|'') ss4 t4;
          (t6, ss6) = getline (CHR ''|'') ss5 t5;
          (t7, ss7) = getline (CHR ''|'') ss6 t6;
          (t8, ss8) = getline (CHR ''|'') ss7 t7
      in bind_result (deref sec) (\<lambda>sm.
         bind_result (decrypt sm t1) (\<lambda>f1.
         bind_result (decrypt sm t2) (\<lambda>f2.
         bind_result (decrypt sm t3) (\<lambda>f3.
         bind_result (decrypt sm t4) (\<lambda>f4.
         bind_result (decrypt sm t5) (\<lambda>f5.
         bind_result (decrypt sm t6) (\<lambda>f6.
         bind_result (stol t7) (\<lambda>c.
         bind_result (stol t8) (\<lambda>m.
         Inr \<lparr>id_entry = f1, website = f2, username = f3, password = f4, category = f5,
              notes_entry = f6, createdAt = c, lastModified = m\<rparr>))))))))))"

fun parse_lines :: "SecurityManager option \<Rightarrow> string list \<Rightarrow> error + PasswordEntry list" where
  "parse_lines sec [] = Inr []"
| "parse_lines sec (line # rest) =
     bind_result (parse_line sec line) (\<lambda>entry.
     bind_result (parse_lines sec rest) (\<lambda>more. Inr (entry # more)))"

definition loadFromFile :: "PassVault \<Rightarrow> backing_file \<Rightarrow> error + (bool \<times> PassVault)" where
  "loadFromFile v file =
     (case content file of
        None \<Rightarrow> Inr (False, v)
      | Some data \<Rightarrow>
          bind_result (parse_lines (security v) (read_lines (open_stream data) [])) (\<lambda>es.
          Inr (True, v\<lparr>entries := es\<rparr>)))"

subsection \<open>Operations on the entries\<close>

definition addEntry ::
  "time_t \<Rightarrow> time_t \<Rightarrow> time_t \<Rightarrow> nat \<Rightarrow> time_t \<Rightarrow> time_t \<Rightarrow> PasswordEntry \<Rightarrow> PassVault
     \<Rightarrow> backing_file \<Rightarrow> error + (bool \<times> PassVault \<times> backing_file)" where
  "addEntry now tActivity tId r tCreated tModified entry v file =
     (case locked_after_check now v of
        (locked, v1) \<Rightarrow>
          if locked then Inr (False, v1, file)
          else
            (let v2 = updateActivity tActivity v1;
                 newEntry = entry\<lparr>id_entry := generateId tId r, createdAt := tCreated,
                                  lastModified := tModified\<rparr>;
                 v3 = v2\<lparr>entries := entries v2 @ [newEntry]\<rparr>
             in bind_result (saveToFile v3 file) (\<lambda>(ok, file'). Inr (ok, v3, file'))))"

text \<open>The loop of \<open>updateEntry\<close>: the first entry with the id is overwritten; \<open>None\<close> if there is none.\<close>

fun update_first ::
  "time_t \<Rightarrow> string \<Rightarrow> PasswordEntry \<Rightarrow> PasswordEntry list \<Rightarrow> PasswordEntry list option" where
  "update_first now i entry [] = None"
| "update_first now i entry (e # es) =
     (if id_entry e = i
      then Some (e\<lparr>website := website entry, username := username entry,
                   password := password entry, category := category entry,
                   notes_entry := notes_entry entry, lastModified := now\<rparr> # es)
      else map_option (\<lambda>es'. e # es') (update_first now i entry es))"

definition updateEntry ::
  "time_t \<Rightarrow> time_t \<Rightarrow> time_t \<Rightarrow> string \<Rightarrow> PasswordEntry \<Rightarrow> PassVault \<Rightarrow> backing_file
     \<Rightarrow> error + (bool \<times> PassVault \<times> backing_file)" where
  "updateEntry now tActivity tModified i entry v file =
     (case locked_after_check now v of
        (locked, v1) \<Rightarrow>
          if locked then Inr (False, v1, file)
          else
            (let v2 = updateActivity tActivity v1
             in case update_first tModified i entry (entries v2) of
                  None \<Rightarrow> Inr (False, v2, file)
                | Some es \<Rightarrow>
                    (let v3 = v2\<lparr>entries := es\<rparr>
                     in bind_result (saveToFile v3 file) (\<lambda>(ok, file'). Inr (ok, v3, file')))))"

text \<open>
  \<^verbatim>\<open>remove_if\<close> keeps the entries with another id, in their order, and returns \<^verbatim>\<open>end()\<close>
  exactly when no entry has the id.
\<close>

definition deleteEntry ::
  "time_t \<Rightarrow> time_t \<Rightarrow> string \<Rightarrow> PassVault \<Rightarrow> backing_file
     \<Rightarrow> error + (bool \<times> PassVault \<times> backing_file)" where
  "deleteEntry now tActivity i v file =
     (case locked_after_check now v of
        (locked, v1) \<Rightarrow>
          if locked then Inr (False, v1, file)
          else
            (let v2 = updateActivity tActivity v1
             in if list_ex (\<lambda>e. id_entry e = i) (entries v2)
                then (let v3 = v2\<lparr>entries := filter (\<lambda>e. id_entry e \<noteq> i) (entries v2)\<rparr>
                      in bind_result (saveToFile v3 file) (\<lambda>(ok, file'). Inr (ok, v3, file')))
                else Inr (False, v2, file)))"

text \<open>
  \<^verbatim>\<open>std::string::find\<close>: the first position at which the argument occurs, \<open>None\<close> for
  \<^verbatim>\<open>npos\<close>.
\<close>

fun find_str :: "string \<Rightarrow> string \<Rightarrow> nat option" where
  "find_str [] q = (if q = [] then Some 0 else None)"
| "find_str (c # cs) q =
     (if take (length q) (c # cs) = q then Some 0 else map_option Suc (find_str cs q))"

definition search_match :: "string \<Rightarrow> PasswordEntry \<Rightarrow> bool" where
  "search_match lowerQuery entry =
     (let lowerWebsite = map tolower (website entry);
          lowerUsername = map tolower (username entry)
      in find_str lowerWebsite lowerQuery \<noteq> None \<or>
         find_str lowerUsername lowerQuery \<noteq> None \<or>
         find_str (category entry) lowerQuery \<noteq> None)"

definition searchEntries ::
  "time_t \<Rightarrow> time_t \<Rightarrow> string \<Rightarrow> PassVault \<Rightarrow> PasswordEntry list \<times> PassVault" where
  "searchEntries now tActivity query v =
     (case locked_after_check now v of
        (locked, v1) \<Rightarrow>
          if locked then ([], v1)
          else
            (let v2 = updateActivity tActivity v1;
                 lowerQuery = map tolower query
             in (filter (search_match lowerQuery) (entries v2), v2)))"

definition getAllEntries ::
  "time_t \<Rightarrow> time_t \<Rightarrow> PassVault \<Rightarrow> PasswordEntry list \<times> PassVault" where
  "getAllEntries now tActivity v =
     (case locked_after_check now v of
        (locked, v1) \<Rightarrow>
          if locked then ([], v1)
          else (let v2 = updateActivity tActivity v1 in (entries v2, v2)))"

text \<open>\<open>getEntry\<close> returns a pointer to the entry; the model returns the entry, \<open>None\<close> for \<^verbatim>\<open>nullptr\<close>.\<close>

definition getEntry ::
  "time_t \<Rightarrow> time_t \<Rightarrow> string \<Rightarrow> PassVault \<Rightarrow> PasswordEntry option \<times> PassVault" where
  "getEntry now tActivity i v =
     (case locked_after_check now v of
        (locked, v1) \<Rightarrow>
          if locked then (None, v1)
          else (let v2 = updateActivity tActivity v1
                in (List.find (\<lambda>e. id_entry e = i) (entries v2), v2)))"

subsection \<open>Health report\<close>

text \<open>
  A \<^verbatim>\<open>std::map<string, int>\<close> is an association list with one pair for a key. \<open>map_at\<close> reads
  \<^verbatim>\<open>m[k]\<close>, which is 0 for a key that is not there yet, and \<open>map_set\<close> assigns to it. The list
  is in the order of insertion where the \<^verbatim>\<open>std::map\<close> is in the order of the keys; the loop
  over the map adds numbers up, so the order does not show.

  A password is old when \<^verbatim>\<open>difftime(now, lastModified) / (30 * 24 * 60 * 60) > 6\<close>, which for
  whole seconds is \<open>now - lastModified > 6 * (30 * 24 * 60 * 60)\<close>.
\<close>

type_synonym string_int_map = "(string \<times> int) list"

definition map_at :: "string \<Rightarrow> string_int_map \<Rightarrow> int" where
  "map_at k m = (case map_of m k of None \<Rightarrow> 0 | Some n \<Rightarrow> n)"

fun map_set :: "string \<Rightarrow> int \<Rightarrow> string_int_map \<Rightarrow> string_int_map" where
  "map_set k n [] = [(k, n)]"
| "map_set k n ((k', n') # m) = (if k' = k then (k, n) # m else (k', n') # map_set k n m)"

definition health_step ::
  "time_t \<Rightarrow> string_int_map \<times> string_int_map \<Rightarrow> PasswordEntry
     \<Rightarrow> string_int_map \<times> string_int_map" where
  "health_step now state entry =
     (case state of
        (report, passwordCount) \<Rightarrow>
          (let strength = analyzePassword (password entry);
               report1 = (if score strength < 60
                          then map_set ''weak'' (map_at ''weak'' report + 1) report
                          else report);
               passwordCount1 = map_set (password entry)
                                  (map_at (password entry) passwordCount + 1) passwordCount;
               report2 = (if now - lastModified entry > 6 * (30 * 24 * 60 * 60)
                          then map_set ''old'' (map_at ''old'' report1 + 1) report1
                          else report1)
           in (report2, passwordCount1)))"

definition reused_step :: "string_int_map \<Rightarrow> string \<times> int \<Rightarrow> string_int_map" where
  "reused_step report p =
     (if snd p > 1 then map_set ''reused'' (map_at ''reused'' report + snd p) report else report)"

definition getHealthReport :: "time_t \<Rightarrow> PassVault \<Rightarrow> string_int_map" where
  "getHealthReport now v =
     (let report0 = map_set ''old'' 0 (map_set ''reused'' 0 (map_set ''weak'' 0
                      (map_set ''total'' (size_to_int (length (entries v))) [])));
          (report, passwordCount) = foldl (health_step now) (report0, []) (entries v)
      in foldl reused_step report passwordCount)"

section \<open>Vocabulary of the statements\<close>

text \<open>
  The match that the specification words for \<open>searchEntries\<close>: the query occurs in the website
  or in the username when case is ignored, or it occurs as it is in the category.
\<close>

definition spec_search_match :: "string \<Rightarrow> PasswordEntry \<Rightarrow> bool" where
  "spec_search_match query entry =
     (sublist (map tolower query) (map tolower (website entry)) \<or>
      sublist (map tolower query) (map tolower (username entry)) \<or>
      sublist query (category entry))"

text \<open>A vault that has been initialised with a passphrase and then locked.\<close>

definition locked_vault :: PassVault where
  "locked_vault = lock (snd (initialize 100 ''hunter22'' (PassVault_new ''passvault.dat'' 50)))"

text \<open>The same vault before it is locked, and a vault file that does not exist yet.\<close>

definition unlocked_vault :: PassVault where
  "unlocked_vault = snd (initialize 100 ''hunter22'' (PassVault_new ''passvault.dat'' 50))"

definition no_file :: backing_file where
  "no_file = \<lparr>content = None, writable = True\<rparr>"

definition blank_entry :: PasswordEntry where
  "blank_entry =
     \<lparr>id_entry = [], website = [], username = [], password = [], category = [],
      notes_entry = [], createdAt = 0, lastModified = 0\<rparr>"

section \<open>The codec: encryption and hexadecimal encoding\<close>

lemmas char_eval = char_of_def bit_0

lemmas ctype_defs = isupper_def islower_def isdigit_def ispunct_def isspace_def

lemma take_bit_of_char: "take_bit 8 (of_char c :: nat) = of_char c"
  by (simp add: take_bit_eq_mod)

lemma xor_char_cancel: "xor_char (xor_char a k) k = a"
proof -
  have "take_bit 8 ((of_char a :: nat) XOR of_char k) = of_char a XOR of_char k"
    by (simp only: take_bit_xor take_bit_of_char)
  then have "of_char (xor_char a k) = (of_char a :: nat) XOR of_char k"
    by (simp add: xor_char_def take_bit_eq_mod)
  then have "xor_char (xor_char a k) k = char_of (((of_char a :: nat) XOR of_char k) XOR of_char k)"
    by (simp add: xor_char_def)
  also have "\<dots> = char_of (of_char a :: nat)"
    by (simp add: xor.assoc)
  finally show ?thesis by simp
qed

lemma length_xor_loop: "length (xor_loop data k) = length data"
  by (simp add: xor_loop_def)

lemma xor_loop_involution: "xor_loop (xor_loop data k) k = data"
  by (rule nth_equalityI) (simp_all add: xor_loop_def xor_char_cancel)

lemma to_string_unsigned_nonempty: "to_string_unsigned n \<noteq> []"
  by (subst to_string_unsigned.simps) simp

lemma hashPassword_nonempty: "hashPassword p \<noteq> []"
  by (simp only: hashPassword_def to_string_unsigned_nonempty not_False_eq_True)

lemma below_16_cases:
  "d < 16 \<Longrightarrow> d \<in> {0, 1, 2, 3, 4, 5, 6, 7, 8, 9, 10, 11, 12, 13, 14, 15 :: nat}"
  by simp arith

lemma byte_nibbles: "n < 256 \<Longrightarrow> n div 16 < (16 :: nat)" "n mod 16 < (16 :: nat)"
  by (simp_all add: less_mult_imp_div_less)

lemma hex_char_props:
  assumes "d < 16"
  shows "digit_value (hex_char d) = d"
    and "\<not> isspace (hex_char d)"
    and "hex_char d \<noteq> char_of (0 :: nat)"
    and "hex_char d \<noteq> CHR ''-''"
    and "hex_char d \<noteq> CHR ''+''"
    and "hex_char d \<in> set ''0123456789abcdef''"
  using below_16_cases [OF assms]
  by (auto simp: hex_char_def digit_value_def ctype_defs char_eval)

lemma hex_digits_byte:
  "setw_fill 2 (CHR ''0'') (hex_digits n) = [hex_char (n div 16), hex_char (n mod 16)]" if "n < 256"
proof -
  have "hex_char 0 = CHR ''0''"
    by (simp add: hex_char_def)
  then show ?thesis
    using byte_nibbles(1) [of n] that
    by (simp add: setw_fill_def hex_digits.simps [of n] hex_digits.simps [of "n div 16"])
qed

lemma strtol_hex_pair:
  assumes "a < 16" "b < 16"
  shows "strtol [hex_char a, hex_char b] 16 = (True, int (16 * a + b), True)"
  using hex_char_props [OF assms(1)] hex_char_props [OF assms(2)] assms
  by (simp add: strtol_def c_str_def has_hex_prefix_def in_base_def Let_def
      is_long_def LONG_MAX_def LONG_MIN_def)

lemma toHex_Cons:
  "toHex (c # cs) = hex_char (of_char c div 16) # hex_char (of_char c mod 16) # toHex cs"
  by (simp add: toHex_def hex_digits_byte)

lemma fromHex_toHex: "fromHex (toHex data) = data"
proof (induction data)
  case Nil
  show ?case by (simp add: toHex_def)
next
  case (Cons c cs)
  let ?n = "of_char c :: nat"
  have lt: "?n div 16 < 16" "?n mod 16 < 16"
    using nat_of_char_less_256 [of c] by (simp_all add: byte_nibbles)
  have "long_to_char (int (16 * (?n div 16) + ?n mod 16)) = c"
    by (simp add: long_to_char_def flip: of_nat_mod)
  with Cons strtol_hex_pair [OF lt] show ?case
    by (simp add: toHex_Cons)
qed

lemma length_toHex: "length (toHex data) = 2 * length data"
  by (induction data) (simp_all add: toHex_Cons, simp add: toHex_def)

lemma set_toHex: "set (toHex data) \<subseteq> set ''0123456789abcdef''"
proof (induction data)
  case Nil
  show ?case by (simp add: toHex_def)
next
  case (Cons c cs)
  let ?n = "of_char c :: nat"
  have lt: "?n div 16 < 16" "?n mod 16 < 16"
    using nat_of_char_less_256 [of c] by (simp_all add: byte_nibbles)
  from Cons hex_char_props(6) [OF lt(1)] hex_char_props(6) [OF lt(2)]
  show ?case by (simp only: toHex_Cons set_simps insert_subset)
qed

lemma encrypt_Inr:
  "key sm \<noteq> [] \<Longrightarrow> encrypt sm data = Inr (toHex (xor_loop data (key sm)))"
  by (simp add: encrypt_def xorEncrypt_def)

lemma decrypt_toHex:
  "key sm \<noteq> [] \<or> data = [] \<Longrightarrow>
   decrypt sm (toHex (xor_loop data (key sm))) = Inr data"
proof -
  assume a: "key sm \<noteq> [] \<or> data = []"
  have "xor_loop data (key sm) \<noteq> [] \<Longrightarrow> data \<noteq> []"
    by (auto simp: xor_loop_def)
  with a show ?thesis
    by (auto simp: decrypt_def xorDecrypt_def fromHex_toHex xor_loop_involution Let_def)
qed

text \<open>
  C1. For the key that the constructor derives from any passphrase and for any plaintext,
  \<open>encrypt\<close> returns a string that \<open>decrypt\<close> turns back into the plaintext; the string
  consists of the characters \<^verbatim>\<open>0-9a-f\<close> only and is twice as long as the plaintext, so its
  length is even.
\<close>

theorem encrypt_decrypt_roundtrip:
  "\<exists>h. encrypt (SecurityManager_new passphrase) plaintext = Inr h
     \<and> decrypt (SecurityManager_new passphrase) h = Inr plaintext
     \<and> set h \<subseteq> set ''0123456789abcdef''
     \<and> length h = 2 * length plaintext
     \<and> even (length h)"
proof -
  let ?sm = "SecurityManager_new passphrase"
  have k: "key ?sm \<noteq> []"
    by (simp add: SecurityManager_new_def hashPassword_nonempty)
  let ?h = "toHex (xor_loop plaintext (key ?sm))"
  have "encrypt ?sm plaintext = Inr ?h"
    using k by (rule encrypt_Inr)
  moreover have "decrypt ?sm ?h = Inr plaintext"
    using k by (simp add: decrypt_toHex)
  moreover have "set ?h \<subseteq> set ''0123456789abcdef''"
    by (rule set_toHex)
  moreover have "length ?h = 2 * length plaintext"
    by (simp add: length_toHex length_xor_loop)
  ultimately show ?thesis
    by (intro exI [of _ ?h]) simp
qed

section \<open>The lock state machine\<close>

text \<open>
  C4. On a locked vault \<open>unlock\<close> returns true and leaves the vault unlocked exactly when its
  argument is the stored master passphrase, which is the one \<open>initialize\<close> was given; for any
  other string it returns false and the whole session state is as before.
\<close>

theorem unlock_iff_master_passphrase:
  "isLocked v \<Longrightarrow>
     unlock now p v =
       (if p = masterPassword v
        then (True, v\<lparr>isLocked := False, lastActivity := now\<rparr>)
        else (False, v))
     \<and> masterPassword (lock (snd (initialize t0 m v0))) = m
     \<and> isLocked (lock (snd (initialize t0 m v0)))"
  by (simp add: unlock_def updateActivity_def lock_def initialize_def)

theorem unlock_iff_master_passphrase_witness:
  "isLocked locked_vault
   \<and> unlock 200 ''hunter22'' locked_vault
       = (True, locked_vault\<lparr>isLocked := False, lastActivity := 200\<rparr>)
   \<and> unlock 200 ''hunter2'' locked_vault = (False, locked_vault)"
proof -
  have l: "isLocked locked_vault"
    by (simp add: locked_vault_def lock_def)
  have m: "masterPassword locked_vault = ''hunter22''"
    by (simp add: locked_vault_def lock_def initialize_def updateActivity_def)
  from unlock_iff_master_passphrase [OF l, of 200 "''hunter22''"]
       unlock_iff_master_passphrase [OF l, of 200 "''hunter2''"] l m
  show ?thesis by simp
qed

text \<open>
  C5, as stated, fails: after \<open>initialize\<close> and \<open>lock\<close> the vault is locked and still holds
  the \<open>SecurityManager\<close> with the derived key, and the master passphrase.
\<close>

theorem lock_keeps_key_counterexample:
  "isLocked locked_vault
   \<and> security locked_vault = Some (SecurityManager_new ''hunter22'')
   \<and> security locked_vault \<noteq> None
   \<and> masterPassword locked_vault = ''hunter22''"
  by (simp add: locked_vault_def lock_def initialize_def updateActivity_def)

text \<open>
  C5, amended. \<open>lock\<close> sets the state to locked and changes nothing else: the
  \<open>SecurityManager\<close> with the derived key and the stored master passphrase stay in the session
  state. The key is absent only before the first \<open>initialize\<close>.
\<close>

theorem lock_only_sets_flag:
  "lock v = v\<lparr>isLocked := True\<rparr>
   \<and> isLocked (lock v)
   \<and> security (lock v) = security v
   \<and> masterPassword (lock v) = masterPassword v
   \<and> security (snd (initialize now m v)) = Some (SecurityManager_new m)
   \<and> security (PassVault_new filename now) = None"
  by (simp add: lock_def initialize_def updateActivity_def PassVault_new_def)

text \<open>
  C10. On a vault that has just been constructed, \<open>unlock\<close> with the empty string returns
  true and the vault is unlocked, although no key has been derived: the stored master passphrase
  starts as the empty string and \<open>security\<close> is still the null pointer.
\<close>

theorem fresh_vault_unlock_empty:
  "unlock now [] (PassVault_new filename t0)
     = (True, (PassVault_new filename t0)\<lparr>isLocked := False, lastActivity := now\<rparr>)
   \<and> isLocked (PassVault_new filename t0)
   \<and> \<not> isLocked (snd (unlock now [] (PassVault_new filename t0)))
   \<and> security (snd (unlock now [] (PassVault_new filename t0))) = None"
  by (simp add: unlock_def PassVault_new_def updateActivity_def)

section \<open>PasswordAnalyzer\<close>





lemma size_to_int_wraps: "size_to_int (2 ^ 31) = - (2 ^ 31)"
  by (simp add: size_to_int_def)




section \<open>The gate of the operations\<close>

lemma locked_after_check_eq:
  "locked_after_check now v =
     (if autoLockMinutes v > 0 \<and> now - lastActivity v > autoLockMinutes v * 60
      then (True, v\<lparr>isLocked := True\<rparr>)
      else (isLocked v, v))"
  by (simp add: locked_after_check_def checkAutoLock_def)

lemma locked_after_check_state:
  "fst (locked_after_check now v) \<Longrightarrow>
     snd (locked_after_check now v) = v\<lparr>isLocked := True\<rparr>"
  by (simp add: locked_after_check_eq split: if_splits)

lemma saveToFile_lock: "saveToFile (lock v) file = saveToFile v file"
  by (simp add: saveToFile_def lock_def)

lemma loadFromFile_lock:
  "loadFromFile (lock v) file =
     (case loadFromFile v file of Inl e \<Rightarrow> Inl e | Inr (ok, v') \<Rightarrow> Inr (ok, lock v'))"
  by (simp add: loadFromFile_def lock_def bind_result_def split: option.splits sum.splits)

text \<open>
  C3, amended. Each of \<open>addEntry\<close>, \<open>updateEntry\<close>, \<open>deleteEntry\<close>, \<open>searchEntries\<close>,
  \<open>getAllEntries\<close> and \<open>getEntry\<close> starts with the lazy auto-lock check, and when the vault is
  locked then (also when the check has just locked it) the operation fails, with false, the empty
  list or no entry: the entries and the vault file are as before, and the only change of the
  session is that the state is locked. \<open>saveToFile\<close> and \<open>loadFromFile\<close> make no check and do not
  read the lock state: on a locked vault they do what they do on the unlocked one.
\<close>

theorem gated_operations_fail_when_locked:
  "fst (locked_after_check now v) \<Longrightarrow>
     addEntry now tActivity tId r tCreated tModified entry v file
       = Inr (False, v\<lparr>isLocked := True\<rparr>, file)
   \<and> updateEntry now tActivity tModified i entry v file
       = Inr (False, v\<lparr>isLocked := True\<rparr>, file)
   \<and> deleteEntry now tActivity i v file = Inr (False, v\<lparr>isLocked := True\<rparr>, file)
   \<and> searchEntries now tActivity query v = ([], v\<lparr>isLocked := True\<rparr>)
   \<and> getAllEntries now tActivity v = ([], v\<lparr>isLocked := True\<rparr>)
   \<and> getEntry now tActivity i v = (None, v\<lparr>isLocked := True\<rparr>)
   \<and> entries (v\<lparr>isLocked := True\<rparr>) = entries v
   \<and> saveToFile (lock v) file = saveToFile v file
   \<and> loadFromFile (lock v) file =
       (case loadFromFile v file of Inl e \<Rightarrow> Inl e | Inr (ok, v') \<Rightarrow> Inr (ok, lock v'))"
proof -
  assume l: "fst (locked_after_check now v)"
  then have c: "locked_after_check now v = (True, v\<lparr>isLocked := True\<rparr>)"
    using locked_after_check_state [OF l] by (cases "locked_after_check now v") simp
  have "addEntry now tActivity tId r tCreated tModified entry v file
       = Inr (False, v\<lparr>isLocked := True\<rparr>, file)"
    by (simp add: addEntry_def c)
  moreover have "updateEntry now tActivity tModified i entry v file
       = Inr (False, v\<lparr>isLocked := True\<rparr>, file)"
    by (simp add: updateEntry_def c)
  moreover have "deleteEntry now tActivity i v file = Inr (False, v\<lparr>isLocked := True\<rparr>, file)"
    by (simp add: deleteEntry_def c)
  moreover have "searchEntries now tActivity query v = ([], v\<lparr>isLocked := True\<rparr>)"
    by (simp add: searchEntries_def c)
  moreover have "getAllEntries now tActivity v = ([], v\<lparr>isLocked := True\<rparr>)"
    by (simp add: getAllEntries_def c)
  moreover have "getEntry now tActivity i v = (None, v\<lparr>isLocked := True\<rparr>)"
    by (simp add: getEntry_def c)
  ultimately show ?thesis
    by (simp only: saveToFile_lock loadFromFile_lock simp_thms) simp
qed

lemma locked_vault_fields:
  "isLocked locked_vault" "security locked_vault = Some (SecurityManager_new ''hunter22'')"
  "entries locked_vault = []" "lastActivity locked_vault = 100" "autoLockMinutes locked_vault = 10"
  by (simp_all add: locked_vault_def lock_def initialize_def updateActivity_def PassVault_new_def)

theorem gated_operations_fail_when_locked_witness:
  "fst (locked_after_check 5000 unlocked_vault)
   \<and> \<not> isLocked unlocked_vault
   \<and> addEntry 5000 5000 5000 7 5000 5000 blank_entry unlocked_vault no_file
       = Inr (False, unlocked_vault\<lparr>isLocked := True\<rparr>, no_file)
   \<and> getAllEntries 5000 5000 unlocked_vault = ([], unlocked_vault\<lparr>isLocked := True\<rparr>)"
proof -
  have u: "\<not> isLocked unlocked_vault" "lastActivity unlocked_vault = 100"
    "autoLockMinutes unlocked_vault = 10"
    by (simp_all add: unlocked_vault_def initialize_def updateActivity_def PassVault_new_def)
  then have l: "fst (locked_after_check 5000 unlocked_vault)"
    by (simp add: locked_after_check_eq)
  from gated_operations_fail_when_locked
         [OF l, of 5000 5000 7 5000 5000 blank_entry no_file] l u
  show ?thesis by simp
qed

lemma split_at_delim:
  "d \<notin> set a \<Longrightarrow>
     takeWhile (\<lambda>c. c \<noteq> d) (a @ d # rest) = a \<and> dropWhile (\<lambda>c. c \<noteq> d) (a @ d # rest) = d # rest"
  by (induction a) auto

lemma no_delim: "d \<notin> set a \<Longrightarrow> dropWhile (\<lambda>c. c \<noteq> d) a = []"
  by (induction a) auto

lemma getline_delim:
  "d \<notin> set a \<Longrightarrow>
     getline d \<lparr>buffer = a @ d # rest, eofbit = False, failbit = False\<rparr> str
       = (a, \<lparr>buffer = rest, eofbit = False, failbit = False\<rparr>)"
  by (simp add: getline_def split_at_delim)

lemma getline_last:
  "d \<notin> set a \<Longrightarrow>
     getline d \<lparr>buffer = a, eofbit = False, failbit = False\<rparr> str
       = (a, \<lparr>buffer = [], eofbit = True, failbit = (a = [])\<rparr>)"
  by (simp add: getline_def no_delim)

lemma read_lines_end:
  "read_lines \<lparr>buffer = [], eofbit = False, failbit = False\<rparr> str = []"
  by (subst read_lines.simps) (simp add: getline_def)

lemma read_lines_line:
  "newline \<notin> set l \<Longrightarrow>
     read_lines \<lparr>buffer = l @ newline # rest, eofbit = False, failbit = False\<rparr> str
       = l # read_lines \<lparr>buffer = rest, eofbit = False, failbit = False\<rparr> l"
  by (subst read_lines.simps) (simp add: getline_delim)

lemma read_lines_one:
  "newline \<notin> set l \<Longrightarrow> read_lines (open_stream (l @ [newline])) str = [l]"
  by (simp add: open_stream_def read_lines_line read_lines_end)

text \<open>
  C3, as stated, fails for \<open>save\<close> and \<open>load\<close>: on a locked vault \<open>saveToFile\<close> returns true
  and replaces the content of the vault file, and \<open>loadFromFile\<close> returns true and replaces
  the entries.
\<close>

theorem save_load_ignore_lock_counterexample:
  "isLocked locked_vault
   \<and> saveToFile locked_vault \<lparr>content = Some ''junk'', writable = True\<rparr>
       = Inr (True, \<lparr>content = Some [], writable = True\<rparr>)
   \<and> loadFromFile locked_vault \<lparr>content = Some (''||||||1|2'' @ [newline]), writable = True\<rparr>
       = Inr (True, locked_vault\<lparr>entries := [blank_entry\<lparr>createdAt := 1, lastModified := 2\<rparr>]\<rparr>)"
proof -
  have s: "saveToFile locked_vault \<lparr>content = Some ''junk'', writable = True\<rparr>
       = Inr (True, \<lparr>content = Some [], writable = True\<rparr>)"
    by (simp add: saveToFile_def locked_vault_fields bind_result_def)
  have r: "read_lines (open_stream (''||||||1|2'' @ [newline])) [] = [''||||||1|2'']"
    by (rule read_lines_one) (simp add: newline_def)
  have d: "decrypt sm [] = Inr []" for sm
    by (simp add: decrypt_def xorDecrypt_def xor_loop_def)
  have n: "stol ''1'' = Inr 1" "stol ''2'' = Inr 2"
    by (simp_all add: stol_def strtol_def c_str_def ctype_defs in_base_def digit_value_def
        is_long_def LONG_MAX_def LONG_MIN_def Let_def char_eval)
  have p: "parse_line (Some sm) ''||||||1|2''
             = Inr (blank_entry\<lparr>createdAt := 1, lastModified := 2\<rparr>)" for sm
    by (simp add: parse_line_def getline_def open_stream_def bind_result_def deref_def d n
        blank_entry_def)
  have "loadFromFile locked_vault \<lparr>content = Some (''||||||1|2'' @ [newline]), writable = True\<rparr>
       = Inr (True, locked_vault\<lparr>entries := [blank_entry\<lparr>createdAt := 1, lastModified := 2\<rparr>]\<rparr>)"
    by (simp only: loadFromFile_def backing_file.simps option.case r parse_lines.simps
        locked_vault_fields p bind_result_def sum.case)
  with s locked_vault_fields(1) show ?thesis by simp
qed

section \<open>Searching\<close>

lemma find_str_iff_sublist: "find_str s q \<noteq> None \<longleftrightarrow> sublist q s"
proof (induction s)
  case Nil
  show ?case by simp
next
  case (Cons c cs)
  have "prefix q (c # cs) \<longleftrightarrow> take (length q) (c # cs) = q"
    by (metis append_eq_conv_conj prefix_def append_take_drop_id)
  with Cons show ?case
    by (simp add: sublist_Cons_right del: take_Suc_Cons)
qed

lemma search_match_eq:
  "search_match lowerQuery e =
     (sublist lowerQuery (map tolower (website e))
      \<or> sublist lowerQuery (map tolower (username e))
      \<or> sublist lowerQuery (category e))"
  unfolding search_match_def Let_def find_str_iff_sublist by (rule refl)

lemma search_match_fun:
  "search_match lowerQuery =
     (\<lambda>e. sublist lowerQuery (map tolower (website e))
        \<or> sublist lowerQuery (map tolower (username e))
        \<or> sublist lowerQuery (category e))"
  by (rule ext) (rule search_match_eq)

lemma find_str_empty: "find_str s [] = Some 0"
  by (cases s) simp_all

text \<open>
  What \<open>searchEntries\<close> computes on an unlocked vault: it returns, in the order of storage,
  the entries in which the lower-cased query occurs in the lower-cased website, in the
  lower-cased username, or in the category as it is stored. The empty query returns every entry.
\<close>

lemma searchEntries_matches:
  "\<not> fst (locked_after_check now v) \<Longrightarrow>
     fst (searchEntries now tActivity query v) =
       filter (\<lambda>e. sublist (map tolower query) (map tolower (website e))
                  \<or> sublist (map tolower query) (map tolower (username e))
                  \<or> sublist (map tolower query) (category e)) (entries v)
   \<and> fst (searchEntries now tActivity [] v) = entries v"
proof -
  assume u: "\<not> fst (locked_after_check now v)"
  then have c: "locked_after_check now v = (False, v)"
    by (simp add: locked_after_check_eq split: if_splits)
  have "fst (searchEntries now tActivity [] v) = entries v"
    by (simp add: searchEntries_def c updateActivity_def search_match_def find_str_empty)
  moreover have "fst (searchEntries now tActivity query v) =
       filter (\<lambda>e. sublist (map tolower query) (map tolower (website e))
                  \<or> sublist (map tolower query) (map tolower (username e))
                  \<or> sublist (map tolower query) (category e)) (entries v)"
    by (simp add: searchEntries_def c updateActivity_def search_match_fun Let_def)
  ultimately show ?thesis by simp
qed

lemma unlocked_vault_fields:
  "\<not> isLocked unlocked_vault" "lastActivity unlocked_vault = 100"
  "autoLockMinutes unlocked_vault = 10" "entries unlocked_vault = []"
  "security unlocked_vault = Some (SecurityManager_new ''hunter22'')"
  by (simp_all add: unlocked_vault_def initialize_def updateActivity_def PassVault_new_def)

lemma lower_Work: "map tolower ''Work'' = ''work''" "map tolower ''GitHub.com'' = ''github.com''"
  "map tolower ''github'' = ''github''"
  by (simp_all add: tolower_def ctype_defs char_eval)

lemma sublist_eval: "sublist q s \<longleftrightarrow> find_str s q \<noteq> None"
  unfolding find_str_iff_sublist by (rule refl)

lemma searchEntries_matches_example:
  "\<not> fst (locked_after_check 160 (unlocked_vault\<lparr>entries := [blank_entry\<lparr>website := ''GitHub.com''\<rparr>, blank_entry]\<rparr>))
   \<and> fst (searchEntries 160 160 ''github'' (unlocked_vault\<lparr>entries := [blank_entry\<lparr>website := ''GitHub.com''\<rparr>, blank_entry]\<rparr>))
       = [blank_entry\<lparr>website := ''GitHub.com''\<rparr>]"
proof -
  let ?g = "blank_entry\<lparr>website := ''GitHub.com''\<rparr>"
  let ?v = "unlocked_vault\<lparr>entries := [?g, blank_entry]\<rparr>"
  have u: "\<not> fst (locked_after_check 160 ?v)"
    by (simp add: locked_after_check_eq unlocked_vault_fields)
  have s: "sublist ''github'' ''github.com''" "\<not> sublist ''github'' []"
    by (simp_all add: sublist_eval)
  have "website ?g = ''GitHub.com''"
    by simp
  then have g: "map tolower (website ?g) = ''github.com''"
    by (simp only: lower_Work(2))
  have e: "map tolower (website blank_entry) = []"
    "map tolower (username ?g) = []" "map tolower (username blank_entry) = []"
    "category ?g = []" "category blank_entry = []"
    by (simp_all add: blank_entry_def)
  have "fst (searchEntries 160 160 ''github'' ?v) =
       filter (\<lambda>e. sublist (map tolower ''github'') (map tolower (website e))
                  \<or> sublist (map tolower ''github'') (map tolower (username e))
                  \<or> sublist (map tolower ''github'') (category e)) (entries ?v)"
    using searchEntries_matches [OF u, of 160 "''github''"] by (rule conjunct1)
  also have "\<dots> = [?g]"
    unfolding lower_Work(3) by (simp add: g e s lower_Work del: list.map)
  finally show ?thesis using u by simp
qed

text \<open>
  C7. The claim selects the entries whose website or username contains the query when case is
  ignored, or whose category contains the query as it is. \<open>searchEntries\<close> lower-cases the
  website and the username, and it searches the category for the lower-cased query without
  lower-casing the category. With the query \<^verbatim>\<open>Work\<close> and one entry of the category \<^verbatim>\<open>Work\<close>
  (a category that the prompt of the program proposes) the entry matches in the sense of the
  claim, and \<open>searchEntries\<close> returns nothing.
\<close>

theorem searchEntries_misses_category:
  "\<not> isLocked (unlocked_vault\<lparr>entries := [blank_entry\<lparr>category := ''Work''\<rparr>]\<rparr>)
   \<and> fst (searchEntries 160 160 ''Work'' (unlocked_vault\<lparr>entries := [blank_entry\<lparr>category := ''Work''\<rparr>]\<rparr>)) = []
   \<and> filter (spec_search_match ''Work'') [blank_entry\<lparr>category := ''Work''\<rparr>]
       = [blank_entry\<lparr>category := ''Work''\<rparr>]"
proof -
  let ?w = "blank_entry\<lparr>category := ''Work''\<rparr>"
  let ?v = "unlocked_vault\<lparr>entries := [?w]\<rparr>"
  have c: "locked_after_check 160 ?v = (False, ?v)"
    by (simp add: locked_after_check_eq unlocked_vault_fields)
  have f: "find_str [] ''work'' = None" "find_str ''Work'' ''work'' = None"
    by simp_all
  have e: "map tolower (website ?w) = []" "map tolower (username ?w) = []" "category ?w = ''Work''"
    by (simp_all add: blank_entry_def)
  have "\<not> search_match ''work'' ?w"
    unfolding search_match_def Let_def e by (simp add: f)
  then have "fst (searchEntries 160 160 ''Work'' ?v) = []"
    unfolding searchEntries_def c Let_def lower_Work(1) by (simp add: updateActivity_def)
  moreover have "spec_search_match ''Work'' ?w"
    unfolding spec_search_match_def e by simp
  ultimately show ?thesis
    by (simp add: unlocked_vault_fields)
qed

section \<open>Adding entries\<close>

lemma not_locked_after_check:
  "\<not> fst (locked_after_check now v) \<Longrightarrow> locked_after_check now v = (False, v)"
  by (simp add: locked_after_check_eq split: if_splits)

lemma addEntry_unlocked:
  assumes "\<not> fst (locked_after_check now v)"
  shows "addEntry now tActivity tId r tCreated tModified entry v file =
           bind_result
             (saveToFile (v\<lparr>lastActivity := tActivity,
                            entries := entries v @ [entry\<lparr>id_entry := generateId tId r,
                              createdAt := tCreated, lastModified := tModified\<rparr>]\<rparr>) file)
             (\<lambda>(ok, file'). Inr (ok, v\<lparr>lastActivity := tActivity,
                            entries := entries v @ [entry\<lparr>id_entry := generateId tId r,
                              createdAt := tCreated, lastModified := tModified\<rparr>]\<rparr>, file'))"
  by (simp add: addEntry_def not_locked_after_check [OF assms] updateActivity_def Let_def)

text \<open>
  What a successful \<open>addEntry\<close> appends on an unlocked vault: the draft with the id made of the
  decimal time followed by the decimal \<^verbatim>\<open>rand() % 10000\<close>. The id is compared with no other.
\<close>

lemma addEntry_appends:
  "\<not> fst (locked_after_check now v) \<Longrightarrow>
   addEntry now tActivity tId r tCreated tModified entry v file = Inr (ok, v', file') \<Longrightarrow>
     entries v' = entries v @ [entry\<lparr>id_entry := to_string tId @ to_string (int (r mod 10000)),
                                       createdAt := tCreated, lastModified := tModified\<rparr>]"
proof -
  assume u: "\<not> fst (locked_after_check now v)"
    and a: "addEntry now tActivity tId r tCreated tModified entry v file = Inr (ok, v', file')"
  from a have "entries v' = entries v @ [entry\<lparr>id_entry := generateId tId r,
                                       createdAt := tCreated, lastModified := tModified\<rparr>]"
    unfolding addEntry_unlocked [OF u]
    by (auto simp: bind_result_def split: sum.splits)
  then show ?thesis
    by (simp add: generateId_def)
qed

lemma to_string_unsigned_small: "n < 10 \<Longrightarrow> to_string_unsigned n = [char_of (48 + n)]"
  by (subst to_string_unsigned.simps) simp

lemma to_string_unsigned_large:
  "\<not> n < 10 \<Longrightarrow>
     to_string_unsigned n = to_string_unsigned (n div 10) @ [char_of (48 + n mod 10)]"
  by (subst to_string_unsigned.simps) simp

lemma hex_digits_small: "n < 16 \<Longrightarrow> hex_digits n = [hex_char n]"
  by (subst hex_digits.simps) simp

lemma hex_digits_large:
  "\<not> n < 16 \<Longrightarrow> hex_digits n = hex_digits (n div 16) @ [hex_char (n mod 16)]"
  by (subst hex_digits.simps) simp

lemmas eval_defs = hash_step_def char_to_ulong_def ULONG_SIZE_def xor_char_def char_eval
  to_string_unsigned_small to_string_unsigned_large hex_digits_small hex_digits_large

lemma key_hunter22: "hashPassword ''hunter22'' = ''7572472640792351''"
  by (simp add: hashPassword_def eval_defs)

lemma to_string_100: "to_string 100 = ''100''" "to_string 7 = ''7''"
  by (simp_all add: to_string_def eval_defs)

lemma encrypt_1007:
  "encrypt (SecurityManager_new ''hunter22'') ''1007'' = Inr ''06050705''"
  "encrypt (SecurityManager_new ''hunter22'') [] = Inr []"
  by (simp_all add: encrypt_def xorEncrypt_def SecurityManager_new_def key_hunter22
      xor_loop_def upt_rec [of _ "numeral k" for k] toHex_def setw_fill_def hex_char_def eval_defs)

lemma generateId_100_7: "generateId 100 7 = ''1007''"
  by (simp add: generateId_def to_string_100)

lemma entry_line_1007:
  "entry_line (Some (SecurityManager_new ''hunter22''))
     (blank_entry\<lparr>id_entry := ''1007'', createdAt := 100, lastModified := 100\<rparr>)
     = Inr (''06050705||||||100|100'' @ [newline])"
  by (simp add: entry_line_def deref_def bind_result_def blank_entry_def encrypt_1007 to_string_100)

lemma unlocked_vault_activity: "unlocked_vault\<lparr>lastActivity := 100\<rparr> = unlocked_vault"
  by (simp add: unlocked_vault_def initialize_def updateActivity_def PassVault_new_def)

lemma addEntry_first:
  "addEntry 100 100 100 7 100 100 blank_entry unlocked_vault no_file
     = Inr (True,
            unlocked_vault\<lparr>entries := [blank_entry\<lparr>id_entry := ''1007'', createdAt := 100,
                                                     lastModified := 100\<rparr>]\<rparr>,
            \<lparr>content = Some (''06050705||||||100|100'' @ [newline]), writable = True\<rparr>)"
proof -
  have u: "\<not> fst (locked_after_check 100 unlocked_vault)"
    by (simp add: locked_after_check_eq unlocked_vault_fields)
  show ?thesis
    unfolding addEntry_unlocked [OF u] generateId_100_7 unlocked_vault_activity
    by (simp add: saveToFile_def no_file_def unlocked_vault_fields entry_line_1007
        bind_result_def)
qed

lemma addEntry_second:
  "addEntry 100 100 100 7 100 100 blank_entry
     (unlocked_vault\<lparr>entries := [blank_entry\<lparr>id_entry := ''1007'', createdAt := 100,
                                              lastModified := 100\<rparr>]\<rparr>)
     \<lparr>content = Some (''06050705||||||100|100'' @ [newline]), writable = True\<rparr>
     = Inr (True,
            unlocked_vault\<lparr>entries :=
              [blank_entry\<lparr>id_entry := ''1007'', createdAt := 100, lastModified := 100\<rparr>,
               blank_entry\<lparr>id_entry := ''1007'', createdAt := 100, lastModified := 100\<rparr>]\<rparr>,
            \<lparr>content = Some (''06050705||||||100|100'' @ [newline]
                               @ ''06050705||||||100|100'' @ [newline]),
             writable = True\<rparr>)"
proof -
  let ?v = "unlocked_vault\<lparr>entries := [blank_entry\<lparr>id_entry := ''1007'', createdAt := 100,
                                              lastModified := 100\<rparr>]\<rparr>"
  have u: "\<not> fst (locked_after_check 100 ?v)"
    by (simp add: locked_after_check_eq unlocked_vault_fields)
  show ?thesis
    unfolding addEntry_unlocked [OF u] generateId_100_7
    by (simp add: saveToFile_def unlocked_vault_fields entry_line_1007 bind_result_def
        unlocked_vault_activity)
qed

lemma deleteEntry_both:
  "deleteEntry 100 100 ''1007''
     (unlocked_vault\<lparr>entries :=
        [blank_entry\<lparr>id_entry := ''1007'', createdAt := 100, lastModified := 100\<rparr>,
         blank_entry\<lparr>id_entry := ''1007'', createdAt := 100, lastModified := 100\<rparr>]\<rparr>)
     \<lparr>content = Some (''06050705||||||100|100'' @ [newline]
                        @ ''06050705||||||100|100'' @ [newline]),
      writable = True\<rparr>
     = Inr (True, unlocked_vault\<lparr>entries := []\<rparr>, \<lparr>content = Some [], writable = True\<rparr>)"
proof -
  let ?v = "unlocked_vault\<lparr>entries :=
        [blank_entry\<lparr>id_entry := ''1007'', createdAt := 100, lastModified := 100\<rparr>,
         blank_entry\<lparr>id_entry := ''1007'', createdAt := 100, lastModified := 100\<rparr>]\<rparr>"
  have c: "locked_after_check 100 ?v = (False, ?v)"
    by (simp add: locked_after_check_eq unlocked_vault_fields)
  show ?thesis
    unfolding deleteEntry_def c
    by (simp add: updateActivity_def saveToFile_def bind_result_def unlocked_vault_activity)
qed

text \<open>
  C6. The claim requires that \<open>addEntry\<close> gives the new entry an id that no stored entry has.
  \<open>generateId\<close> joins the decimal time and the decimal \<^verbatim>\<open>rand() % 10000\<close>, and the id is
  compared with no other. Two calls of \<open>addEntry\<close> within the second 100 to which \<^verbatim>\<open>rand()\<close>
  returns 7 both succeed and leave two entries with the id \<^verbatim>\<open>1007\<close>. The operations that find
  an entry by its id then no longer reach one entry: \<open>deleteEntry\<close> with this id removes both.
\<close>

theorem addEntry_duplicate_id:
  "addEntry 100 100 100 7 100 100 blank_entry unlocked_vault no_file
     = Inr (True,
            unlocked_vault\<lparr>entries := [blank_entry\<lparr>id_entry := ''1007'', createdAt := 100,
                                                     lastModified := 100\<rparr>]\<rparr>,
            \<lparr>content = Some (''06050705||||||100|100'' @ [newline]), writable = True\<rparr>)
   \<and> addEntry 100 100 100 7 100 100 blank_entry
       (unlocked_vault\<lparr>entries := [blank_entry\<lparr>id_entry := ''1007'', createdAt := 100,
                                              lastModified := 100\<rparr>]\<rparr>)
       \<lparr>content = Some (''06050705||||||100|100'' @ [newline]), writable = True\<rparr>
     = Inr (True,
            unlocked_vault\<lparr>entries :=
              [blank_entry\<lparr>id_entry := ''1007'', createdAt := 100, lastModified := 100\<rparr>,
               blank_entry\<lparr>id_entry := ''1007'', createdAt := 100, lastModified := 100\<rparr>]\<rparr>,
            \<lparr>content = Some (''06050705||||||100|100'' @ [newline]
                               @ ''06050705||||||100|100'' @ [newline]),
             writable = True\<rparr>)
   \<and> \<not> distinct (map id_entry
          [blank_entry\<lparr>id_entry := ''1007'', createdAt := 100, lastModified := 100\<rparr>,
           blank_entry\<lparr>id_entry := ''1007'', createdAt := 100, lastModified := 100\<rparr>])
   \<and> deleteEntry 100 100 ''1007''
       (unlocked_vault\<lparr>entries :=
          [blank_entry\<lparr>id_entry := ''1007'', createdAt := 100, lastModified := 100\<rparr>,
           blank_entry\<lparr>id_entry := ''1007'', createdAt := 100, lastModified := 100\<rparr>]\<rparr>)
       \<lparr>content = Some (''06050705||||||100|100'' @ [newline]
                          @ ''06050705||||||100|100'' @ [newline]),
        writable = True\<rparr>
     = Inr (True, unlocked_vault\<lparr>entries := []\<rparr>, \<lparr>content = Some [], writable = True\<rparr>)"
  using addEntry_first addEntry_second deleteEntry_both by simp

section \<open>Health report\<close>

lemma map_of_map_set: "map_of (map_set k n m) = (map_of m)(k \<mapsto> n)"
  by (induction m) (auto simp: fun_eq_iff)

lemma map_at_map_set: "map_at k (map_set k' n m) = (if k = k' then n else map_at k m)"
  by (simp add: map_at_def map_of_map_set)

lemma keys_map_set: "fst ` set (map_set k n m) = insert k (fst ` set m)"
proof -
  have "dom (map_of (map_set k n m)) = insert k (dom (map_of m))"
    by (simp add: map_of_map_set)
  then show ?thesis
    by (simp only: dom_map_of_conv_image_fst)
qed

lemma distinct_map_set: "distinct (map fst m) \<Longrightarrow> distinct (map fst (map_set k n m))"
proof (induction m)
  case Nil
  show ?case by simp
next
  case (Cons p m)
  obtain k' n' where p: "p = (k', n')"
    by (cases p)
  from Cons show ?case
    by (auto simp: p keys_map_set)
qed

lemma health_step_reused:
  "map_at ''reused'' (fst (health_step now (report, pc) e)) = map_at ''reused'' report"
  by (simp add: health_step_def Let_def map_at_map_set)

lemma health_step_count:
  "snd (health_step now (report, pc) e)
     = map_set (password e) (map_at (password e) pc + 1) pc"
  by (simp add: health_step_def Let_def)

lemma health_loop:
  "map_at ''reused'' (fst (foldl (health_step now) (report, pc) es)) = map_at ''reused'' report
   \<and> (distinct (map fst pc) \<longrightarrow> distinct (map fst (snd (foldl (health_step now) (report, pc) es))))
   \<and> set (map fst (snd (foldl (health_step now) (report, pc) es)))
       = set (map fst pc) \<union> set (map password es)
   \<and> (\<forall>p. map_at p (snd (foldl (health_step now) (report, pc) es))
            = map_at p pc + int (count_list (map password es) p))"
proof (induction es arbitrary: report pc)
  case Nil
  show ?case by simp
next
  case (Cons e es)
  obtain report' pc' where st: "health_step now (report, pc) e = (report', pc')"
    by (cases "health_step now (report, pc) e")
  have r: "map_at ''reused'' report' = map_at ''reused'' report"
    using health_step_reused [of now report pc e] st by simp
  have c: "pc' = map_set (password e) (map_at (password e) pc + 1) pc"
    using health_step_count [of now report pc e] st by simp
  from Cons.IH [of report' pc'] r show ?case
    by (simp add: st c keys_map_set distinct_map_set map_at_map_set)
qed

lemma reused_loop:
  "map_at ''reused'' (foldl reused_step report m)
     = map_at ''reused'' report + sum_list (map snd (filter (\<lambda>p. 1 < snd p) m))"
  by (induction m arbitrary: report) (simp_all add: reused_step_def map_at_map_set)

lemma map_at_member:
  "distinct (map fst m) \<Longrightarrow> (k, n) \<in> set m \<Longrightarrow> map_at k m = n"
  by (simp add: map_at_def)

lemma sum_over_counts:
  assumes "distinct (map fst m)"
  shows "sum_list (map snd (filter (\<lambda>p. 1 < snd p) m))
           = (\<Sum>k \<in> {k \<in> set (map fst m). 1 < map_at k m}. map_at k m)"
proof -
  have "map (\<lambda>p. (fst p, map_at (fst p) m)) m = m"
  proof (rule map_idI)
    fix p assume "p \<in> set m"
    then show "(fst p, map_at (fst p) m) = p"
      using map_at_member [OF assms, of "fst p" "snd p"] by (simp add: prod_eq_iff)
  qed
  then have m: "m = map (\<lambda>k. (k, map_at k m)) (map fst m)"
    by (simp add: comp_def)
  have "sum_list (map snd (filter (\<lambda>p. 1 < snd p) m))
          = sum_list (map snd (filter (\<lambda>p. 1 < snd p) (map (\<lambda>k. (k, map_at k m)) (map fst m))))"
    using m by simp
  also have "\<dots> = sum_list (map (\<lambda>k. map_at k m) (filter (\<lambda>k. 1 < map_at k m) (map fst m)))"
    by (simp add: filter_map comp_def)
  also have "\<dots> = (\<Sum>k \<in> set (filter (\<lambda>k. 1 < map_at k m) (map fst m)). map_at k m)"
    using assms by (intro sum_list_distinct_conv_sum_set distinct_filter)
  finally show ?thesis by simp
qed

lemma one_less_int_count: "(1 < int n) = (1 < n)"
  by linarith

lemma reused_of_three:
  assumes "a \<noteq> b"
  shows "(\<Sum>p \<in> {p \<in> set [a, a, b]. 1 < count_list [a, a, b] p}. int (count_list [a, a, b] p)) = 2"
proof -
  from assms have "{p \<in> set [a, a, b]. 1 < count_list [a, a, b] p} = {a}"
    by auto
  with assms show ?thesis by simp
qed

text \<open>
  C8. The \<^verbatim>\<open>reused\<close> entry of the health report is the sum, over the passwords that occur
  more than once in the entry set, of the number of their occurrences; for the three passwords
  \<^verbatim>\<open>abc123\<close>, \<^verbatim>\<open>abc123\<close>, \<^verbatim>\<open>Tr0ub4dor&9!XyZ\<close> it is 2.
\<close>

theorem health_report_reused:
  "map_at ''reused'' (getHealthReport now v)
     = (\<Sum>p \<in> {p \<in> set (map password (entries v)).
                  1 < count_list (map password (entries v)) p}.
          int (count_list (map password (entries v)) p))
   \<and> (map password (entries v) = [''abc123'', ''abc123'', ''Tr0ub4dor&9!XyZ''] \<longrightarrow>
        map_at ''reused'' (getHealthReport now v) = 2)"
proof -
  let ?pws = "map password (entries v)"
  let ?r0 = "[(''total'', size_to_int (length (entries v))), (''weak'', 0), (''reused'', 0),
               (''old'', 0 :: int)]"
  obtain report pc where f: "foldl (health_step now) (?r0, []) (entries v) = (report, pc)"
    by (cases "foldl (health_step now) (?r0, []) (entries v)")
  have r0: "map_at ''reused'' ?r0 = 0"
    by (simp add: map_at_def)
  from health_loop [of now ?r0 "[]" "entries v"] f r0
  have rep: "map_at ''reused'' report = 0"
    and d: "distinct (map fst pc)"
    and k: "set (map fst pc) = set ?pws"
    and c: "\<And>p. map_at p pc = int (count_list ?pws p)"
    by (simp_all add: map_at_def)
  have "map_at ''reused'' (getHealthReport now v) = map_at ''reused'' (foldl reused_step report pc)"
    by (simp add: getHealthReport_def f Let_def)
  also have "\<dots> = sum_list (map snd (filter (\<lambda>p. 1 < snd p) pc))"
    by (simp add: reused_loop rep)
  also have "\<dots> = (\<Sum>p \<in> {p \<in> set (map fst pc). 1 < map_at p pc}. map_at p pc)"
    by (rule sum_over_counts [OF d])
  also have "\<dots> = (\<Sum>p \<in> {p \<in> set ?pws. 1 < count_list ?pws p}. int (count_list ?pws p))"
    by (simp only: k c one_less_int_count)
  finally have g: "map_at ''reused'' (getHealthReport now v)
     = (\<Sum>p \<in> {p \<in> set ?pws. 1 < count_list ?pws p}. int (count_list ?pws p))" .
  have "?pws = [''abc123'', ''abc123'', ''Tr0ub4dor&9!XyZ''] \<longrightarrow>
        map_at ''reused'' (getHealthReport now v) = 2"
  proof
    assume e: "?pws = [''abc123'', ''abc123'', ''Tr0ub4dor&9!XyZ'']"
    have n: "''abc123'' \<noteq> ''Tr0ub4dor&9!XyZ''"
      by simp
    show "map_at ''reused'' (getHealthReport now v) = 2"
      unfolding g e by (rule reused_of_three [OF n])
  qed
  with g show ?thesis by (rule conjI)
qed

theorem health_report_reused_witness:
  "map password (entries (unlocked_vault\<lparr>entries :=
       [blank_entry\<lparr>password := ''abc123''\<rparr>, blank_entry\<lparr>password := ''abc123''\<rparr>,
        blank_entry\<lparr>password := ''Tr0ub4dor&9!XyZ''\<rparr>]\<rparr>))
     = [''abc123'', ''abc123'', ''Tr0ub4dor&9!XyZ'']
   \<and> map_at ''reused'' (getHealthReport 1000 (unlocked_vault\<lparr>entries :=
       [blank_entry\<lparr>password := ''abc123''\<rparr>, blank_entry\<lparr>password := ''abc123''\<rparr>,
        blank_entry\<lparr>password := ''Tr0ub4dor&9!XyZ''\<rparr>]\<rparr>)) = 2"
proof -
  let ?v = "unlocked_vault\<lparr>entries :=
       [blank_entry\<lparr>password := ''abc123''\<rparr>, blank_entry\<lparr>password := ''abc123''\<rparr>,
        blank_entry\<lparr>password := ''Tr0ub4dor&9!XyZ''\<rparr>]\<rparr>"
  have p: "map password (entries ?v) = [''abc123'', ''abc123'', ''Tr0ub4dor&9!XyZ'']"
    by simp
  from health_report_reused [of 1000 ?v, THEN conjunct2, rule_format, OF p] p
  show ?thesis by (rule conjI [rotated])
qed

section \<open>Persistence: saving and loading\<close>

lemma bind_result_Inr:
  "bind_result r f = Inr y \<longleftrightarrow> (\<exists>x. r = Inr x \<and> f x = Inr y)"
  by (cases r) (simp_all add: bind_result_def)

lemma bind_result_simps [simp]:
  "bind_result (Inr x) f = f x" "bind_result (Inl e) f = Inl e"
  by (simp_all add: bind_result_def)

subsection \<open>Decimal numbers\<close>

lemma digit_char:
  assumes "d < 10"
  shows "isdigit (char_of (48 + d))" and "digit_value (char_of (48 + d)) = d"
proof -
  have m: "(48 + d) mod 256 = 48 + d"
    using assms by simp
  then have o: "of_char (char_of (48 + d)) = 48 + d"
    by simp
  show "isdigit (char_of (48 + d))"
    using assms by (simp add: isdigit_def o)
  then show "digit_value (char_of (48 + d)) = d"
    by (simp add: digit_value_def m)
qed

lemma to_string_unsigned_digits: "c \<in> set (to_string_unsigned n) \<Longrightarrow> isdigit c"
proof (induction n arbitrary: c rule: to_string_unsigned.induct)
  case (1 n)
  show ?case
  proof (cases "n < 10")
    case True
    with "1.prems" show ?thesis
      by (simp add: to_string_unsigned_small digit_char)
  next
    case False
    with "1.prems" "1.IH" show ?thesis
      by (auto simp: to_string_unsigned_large digit_char)
  qed
qed

lemma to_string_unsigned_value:
  "foldl (\<lambda>a c. a * int 10 + int (digit_value c)) 0 (to_string_unsigned n) = int n"
proof (induction n rule: to_string_unsigned.induct)
  case (1 n)
  show ?case
  proof (cases "n < 10")
    case True
    then show ?thesis
      by (simp add: to_string_unsigned_small digit_char)
  next
    case False
    have "int (n div 10 * 10 + n mod 10) = int n"
      by simp
    then have "int (n div 10) * 10 + int (n mod 10) = int n"
      by (simp only: of_nat_add of_nat_mult of_nat_numeral)
    with False "1.IH" show ?thesis
      by (simp add: to_string_unsigned_large digit_char)
  qed
qed

lemma isdigit_props:
  assumes "isdigit c"
  shows "in_base 10 c" "\<not> isspace c" "c \<noteq> char_of (0 :: nat)" "c \<noteq> CHR ''-''" "c \<noteq> CHR ''+''"
    "c \<noteq> CHR ''|''" "c \<noteq> newline"
  using assms
  by (auto simp: isdigit_def in_base_def digit_value_def isspace_def newline_def)

lemma strtol_digits:
  assumes "ds \<noteq> []" and "\<And>c. c \<in> set ds \<Longrightarrow> isdigit c"
  shows "strtol ds 10 =
           (True,
            max LONG_MIN (min LONG_MAX (foldl (\<lambda>a c. a * int 10 + int (digit_value c)) 0 ds)),
            is_long (foldl (\<lambda>a c. a * int 10 + int (digit_value c)) 0 ds))"
proof -
  obtain c cs where ds: "ds = c # cs"
    using assms(1) by (cases ds) simp_all
  have c: "isdigit c"
    using assms(2) ds by simp
  have 1: "c_str ds = ds"
    unfolding c_str_def using assms(2) isdigit_props(3) by (simp add: takeWhile_eq_all_conv)
  have 2: "dropWhile isspace ds = ds"
    using isdigit_props(2) [OF c] by (simp add: ds)
  have 3: "takeWhile (in_base 10) ds = ds"
    using assms(2) isdigit_props(1) by (simp add: takeWhile_eq_all_conv)
  show ?thesis
    unfolding strtol_def 1 2 Let_def
    using isdigit_props(4,5) [OF c] 3 by (simp add: ds)
qed

lemma strtol_minus_digits:
  assumes "ds \<noteq> []" and "\<And>c. c \<in> set ds \<Longrightarrow> isdigit c"
  shows "strtol (CHR ''-'' # ds) 10 =
           (True,
            max LONG_MIN (min LONG_MAX (- foldl (\<lambda>a c. a * int 10 + int (digit_value c)) 0 ds)),
            is_long (- foldl (\<lambda>a c. a * int 10 + int (digit_value c)) 0 ds))"
proof -
  have 1: "c_str (CHR ''-'' # ds) = CHR ''-'' # ds"
    unfolding c_str_def using assms(2) isdigit_props(3)
    by (simp add: takeWhile_eq_all_conv char_eval)
  have 2: "dropWhile isspace (CHR ''-'' # ds) = CHR ''-'' # ds"
    by (simp add: isspace_def)
  have 3: "takeWhile (in_base 10) ds = ds"
    using assms(2) isdigit_props(1) by (simp add: takeWhile_eq_all_conv)
  show ?thesis
    unfolding strtol_def 1 2 Let_def
    by (simp add: 3 assms(1))
qed

lemma stol_to_string: "is_long t \<Longrightarrow> stol (to_string t) = Inr t"
proof -
  assume l: "is_long t"
  then have m: "max LONG_MIN (min LONG_MAX t) = t"
    by (simp add: is_long_def)
  show ?thesis
  proof (cases "t < 0")
    case True
    let ?ds = "to_string_unsigned (nat (- t))"
    have "foldl (\<lambda>a c. a * int 10 + int (digit_value c)) 0 ?ds = int (nat (- t))"
      by (rule to_string_unsigned_value)
    with True have "- foldl (\<lambda>a c. a * int 10 + int (digit_value c)) 0 ?ds = t"
      by simp
    then have "strtol (CHR ''-'' # ?ds) 10 = (True, t, True)"
      using l m
      by (simp add: strtol_minus_digits [of ?ds, OF to_string_unsigned_nonempty
            to_string_unsigned_digits])
    with True show ?thesis
      by (simp add: stol_def to_string_def)
  next
    case False
    let ?ds = "to_string_unsigned (nat t)"
    have "foldl (\<lambda>a c. a * int 10 + int (digit_value c)) 0 ?ds = int (nat t)"
      by (rule to_string_unsigned_value)
    with False have "foldl (\<lambda>a c. a * int 10 + int (digit_value c)) 0 ?ds = t"
      by simp
    then have "strtol ?ds 10 = (True, t, True)"
      using l m
      by (simp add: strtol_digits [of ?ds, OF to_string_unsigned_nonempty
            to_string_unsigned_digits])
    with False show ?thesis
      by (simp add: stol_def to_string_def)
  qed
qed

lemma to_string_chars:
  "CHR ''|'' \<notin> set (to_string t)" "newline \<notin> set (to_string t)"
  using isdigit_props(6,7) to_string_unsigned_digits
  by (auto simp: to_string_def newline_def)

subsection \<open>One line\<close>

lemma encrypt_decrypt:
  assumes "encrypt sm d = Inr h"
  shows "decrypt sm h = Inr d" and "CHR ''|'' \<notin> set h" and "newline \<notin> set h"
proof -
  from assms have k: "key sm \<noteq> [] \<or> d = []" and h: "h = toHex (xor_loop d (key sm))"
    by (auto simp: encrypt_def xorEncrypt_def split: if_splits)
  show "decrypt sm h = Inr d"
    unfolding h using k by (rule decrypt_toHex)
  have "set h \<subseteq> set ''0123456789abcdef''"
    unfolding h by (rule set_toHex)
  then show "CHR ''|'' \<notin> set h" and "newline \<notin> set h"
    by (auto simp: newline_def)
qed

lemma parse_saved_line:
  assumes "CHR ''|'' \<notin> set f1" "CHR ''|'' \<notin> set f2" "CHR ''|'' \<notin> set f3"
    "CHR ''|'' \<notin> set f4" "CHR ''|'' \<notin> set f5" "CHR ''|'' \<notin> set f6"
    and "decrypt sm f1 = Inr d1" "decrypt sm f2 = Inr d2" "decrypt sm f3 = Inr d3"
    "decrypt sm f4 = Inr d4" "decrypt sm f5 = Inr d5" "decrypt sm f6 = Inr d6"
    and "is_long c" "is_long m"
  shows "parse_line (Some sm)
           (f1 @ ''|'' @ f2 @ ''|'' @ f3 @ ''|'' @ f4 @ ''|'' @ f5 @ ''|'' @ f6 @ ''|''
            @ to_string c @ ''|'' @ to_string m)
         = Inr \<lparr>id_entry = d1, website = d2, username = d3, password = d4, category = d5,
                notes_entry = d6, createdAt = c, lastModified = m\<rparr>"
  unfolding parse_line_def open_stream_def
  by (simp add: assms getline_delim getline_last to_string_chars stol_to_string deref_def)

lemma entry_line_parse:
  assumes "entry_line sec e = Inr line" and "is_long (createdAt e)" and "is_long (lastModified e)"
  shows "\<exists>body. line = body @ [newline] \<and> newline \<notin> set body \<and> parse_line sec body = Inr e"
proof -
  from assms(1) obtain sm f1 f2 f3 f4 f5 f6 where
    sec: "sec = Some sm" and
    e: "encrypt sm (id_entry e) = Inr f1" "encrypt sm (website e) = Inr f2"
       "encrypt sm (username e) = Inr f3" "encrypt sm (password e) = Inr f4"
       "encrypt sm (category e) = Inr f5" "encrypt sm (notes_entry e) = Inr f6" and
    line: "line = f1 @ ''|'' @ f2 @ ''|'' @ f3 @ ''|'' @ f4 @ ''|'' @ f5 @ ''|'' @ f6 @ ''|''
          @ to_string (createdAt e) @ ''|'' @ to_string (lastModified e) @ [newline]"
    unfolding entry_line_def bind_result_Inr deref_def
    by (auto split: option.splits)
  let ?body = "f1 @ ''|'' @ f2 @ ''|'' @ f3 @ ''|'' @ f4 @ ''|'' @ f5 @ ''|'' @ f6 @ ''|''
          @ to_string (createdAt e) @ ''|'' @ to_string (lastModified e)"
  have "line = ?body @ [newline]"
    by (simp add: line)
  moreover have "newline \<notin> set ?body"
    using e [THEN encrypt_decrypt(3)] to_string_chars(2) by (simp add: newline_def)
  moreover have "parse_line sec ?body = Inr e"
    unfolding sec
    by (subst parse_saved_line [OF e [THEN encrypt_decrypt(2)] e [THEN encrypt_decrypt(1)] assms(2,3)])
       simp
  ultimately show ?thesis by blast
qed

subsection \<open>The whole file\<close>

lemma write_then_read:
  "write_entries sec es = Inr data \<Longrightarrow>
   (\<And>e. e \<in> set es \<Longrightarrow> is_long (createdAt e) \<and> is_long (lastModified e)) \<Longrightarrow>
   parse_lines sec (read_lines \<lparr>buffer = data, eofbit = False, failbit = False\<rparr> str) = Inr es"
proof (induction es arbitrary: data str)
  case Nil
  then show ?case by (simp add: read_lines_end)
next
  case (Cons e es)
  from Cons.prems(1) obtain line more where
    l: "entry_line sec e = Inr line" and m: "write_entries sec es = Inr more" and
    d: "data = line @ more"
    by (auto simp: bind_result_Inr)
  from entry_line_parse [OF l] Cons.prems(2) [of e] obtain body where
    b: "line = body @ [newline]" "newline \<notin> set body" "parse_line sec body = Inr e"
    by auto
  have "parse_lines sec (read_lines \<lparr>buffer = more, eofbit = False, failbit = False\<rparr> body)
          = Inr es"
    using Cons.IH [OF m] Cons.prems(2) by simp
  then show ?case
    by (simp add: d b read_lines_line)
qed

lemma write_entries_total:
  "write_entries (Some (SecurityManager_new p)) es \<noteq> Inl err"
proof (induction es)
  case Nil
  show ?case by simp
next
  case (Cons e es)
  have k: "key (SecurityManager_new p) \<noteq> []"
    by (simp add: SecurityManager_new_def hashPassword_nonempty)
  have "\<exists>line. entry_line (Some (SecurityManager_new p)) e = Inr line"
    by (simp add: entry_line_def deref_def encrypt_Inr [OF k])
  with Cons show ?case
    by (cases "write_entries (Some (SecurityManager_new p)) es") auto
qed

lemma saveToFile_succeeds:
  assumes "security v = Some (SecurityManager_new p)" and "writable file"
  shows "\<exists>file'. saveToFile v file = Inr (True, file')"
proof (cases "write_entries (security v) (entries v)")
  case (Inl err)
  with assms(1) write_entries_total [of p "entries v" err] show ?thesis by simp
next
  case (Inr data)
  with assms(2) show ?thesis by (simp add: saveToFile_def)
qed

text \<open>
  C2. When \<open>saveToFile\<close> succeeds, \<open>loadFromFile\<close> on the file it wrote, by a vault with the
  same \<open>SecurityManager\<close> (the same key), succeeds and sets the entries to the entries that
  were saved: as many, in the same order, equal in every field. The timestamps are values of
  \<^verbatim>\<open>time_t\<close>, which \<open>is_long\<close> says of the integers of the model. (By
  \<open>saveToFile_succeeds\<close>, saving does succeed whenever the \<open>SecurityManager\<close> was made by the
  constructor and the file can be written.)
\<close>

theorem save_load_roundtrip:
  "saveToFile v file = Inr (True, file') \<Longrightarrow>
   (\<forall>e \<in> set (entries v). is_long (createdAt e) \<and> is_long (lastModified e)) \<Longrightarrow>
   security v2 = security v \<Longrightarrow>
     loadFromFile v2 file' = Inr (True, v2\<lparr>entries := entries v\<rparr>)"
proof -
  assume s: "saveToFile v file = Inr (True, file')"
    and t: "\<forall>e \<in> set (entries v). is_long (createdAt e) \<and> is_long (lastModified e)"
    and k: "security v2 = security v"
  from s obtain data where
    w: "write_entries (security v) (entries v) = Inr data" and f: "content file' = Some data"
    by (auto simp: saveToFile_def bind_result_Inr split: if_splits)
  have "parse_lines (security v) (read_lines (open_stream data) []) = Inr (entries v)"
    unfolding open_stream_def using w t by (intro write_then_read) simp_all
  then show ?thesis
    by (simp add: loadFromFile_def f k)
qed

theorem save_load_roundtrip_witness:
  "saveToFile (unlocked_vault\<lparr>entries := [blank_entry\<lparr>id_entry := ''1007'', createdAt := 100,
                                                        lastModified := 100\<rparr>]\<rparr>) no_file
     = Inr (True, \<lparr>content = Some (''06050705||||||100|100'' @ [newline]), writable = True\<rparr>)
   \<and> security unlocked_vault
       = security (unlocked_vault\<lparr>entries := [blank_entry\<lparr>id_entry := ''1007'', createdAt := 100,
                                                        lastModified := 100\<rparr>]\<rparr>)
   \<and> is_long 100
   \<and> loadFromFile unlocked_vault
         \<lparr>content = Some (''06050705||||||100|100'' @ [newline]), writable = True\<rparr>
       = Inr (True, unlocked_vault\<lparr>entries := [blank_entry\<lparr>id_entry := ''1007'', createdAt := 100,
                                                        lastModified := 100\<rparr>]\<rparr>)"
proof -
  let ?e = "blank_entry\<lparr>id_entry := ''1007'', createdAt := 100, lastModified := 100\<rparr>"
  let ?v = "unlocked_vault\<lparr>entries := [?e]\<rparr>"
  let ?f = "\<lparr>content = Some (''06050705||||||100|100'' @ [newline]), writable = True\<rparr>"
  have l: "is_long 100"
    by (simp add: is_long_def LONG_MIN_def LONG_MAX_def)
  have s: "saveToFile ?v no_file = Inr (True, ?f)"
    by (simp add: saveToFile_def no_file_def unlocked_vault_fields entry_line_1007)
  have t: "\<forall>e \<in> set (entries ?v). is_long (createdAt e) \<and> is_long (lastModified e)"
    using l by simp
  have k: "security unlocked_vault = security ?v"
    by simp
  from save_load_roundtrip [OF s t k] s k l show ?thesis
    by simp
qed

end
